theory Spec2Isabelle
  imports Complex_Main
begin

section \<open>Errors\<close>

text \<open>
  Every way in which \<^verbatim>\<open>main.cpp\<close> or a library routine it calls can stop the program
  abnormally is a value of \<open>error\<close>:
  \<^item> \<open>Regex_error\<close>: \<^verbatim>\<open>std::regex\<close>'s constructor throws \<^verbatim>\<open>std::regex_error\<close>;
  \<^item> \<open>Invalid_argument\<close>, \<open>Out_of_range\<close>: the two exceptions of \<^verbatim>\<open>std::stoi\<close>;
  \<^item> \<open>Roi_assertion\<close>: \<^verbatim>\<open>cv::Mat::operator()(cv::Rect)\<close> rejects a rectangle that is not
    inside the matrix;
  \<^item> \<open>Assertion_failed\<close>: the \<^verbatim>\<open>assert\<close> of line 207 (compiled without it, the program
    would read outside the image, which is undefined; the model stops there too);
  \<^item> \<open>Division_by_zero\<close>: a floating-point division whose divisor is zero. IEEE arithmetic
    does not trap there but yields an infinity or a NaN; the model, whose numbers are the
    reals, has no such value and records the event instead;
  \<^item> \<open>Index_out_of_range\<close>: \<^verbatim>\<open>images[0]\<close> on an empty vector;
  \<^item> \<open>Filesystem_error\<close>: \<^verbatim>\<open>std::filesystem::filesystem_error\<close>, thrown by
    \<^verbatim>\<open>directory_iterator\<close> and \<^verbatim>\<open>create_directories\<close>.
  None of them is caught anywhere in \<^verbatim>\<open>main.cpp\<close>: each ends the program.
\<close>

datatype error =
    Regex_error
  | Invalid_argument
  | Out_of_range
  | Roi_assertion
  | Assertion_failed
  | Division_by_zero
  | Index_out_of_range
  | Filesystem_error

section \<open>Images\<close>

text \<open>
  A \<^verbatim>\<open>cv::Mat\<close> as the profiler reads it (\<^verbatim>\<open>image.at<cv::Vec3f>(y, x)\<close>): a grid of
  \<open>rows \<times> cols\<close> pixels, each a triple of samples in the order blue, green, red. Samples
  and the \<^verbatim>\<open>double\<close> accumulators are exact reals: the rounding of \<^verbatim>\<open>float\<close> and
  \<^verbatim>\<open>double\<close> operations is not modelled. \<open>rows\<close> and \<open>cols\<close> are C++ \<^verbatim>\<open>int\<close>s that are
  never negative, so they are naturals here, bounded by \<open>INT_MAX\<close> where that matters.
\<close>

type_synonym Vec3f = "real \<times> real \<times> real"

record Mat =
  rows :: nat
  cols :: nat
  pixel_at :: "nat \<Rightarrow> nat \<Rightarrow> Vec3f"

definition INT_MAX :: nat where
  "INT_MAX = 2147483647"

text \<open>\<^verbatim>\<open>cv::Mat::empty()\<close>: no element.\<close>

definition empty_mat :: "Mat \<Rightarrow> bool" where
  "empty_mat img = (rows img = 0 \<or> cols img = 0)"

text \<open>
  \<^verbatim>\<open>image(cv::Rect(x, y, width, height))\<close>: the sub-matrix whose origin is column \<open>x\<close>,
  row \<open>y\<close> of \<open>img\<close>. OpenCV asserts that the rectangle lies inside the matrix.
\<close>

definition roi :: "Mat \<Rightarrow> nat \<Rightarrow> nat \<Rightarrow> nat \<Rightarrow> nat \<Rightarrow> error + Mat" where
  "roi img x y width height =
     (if x + width \<le> cols img \<and> y + height \<le> rows img
      then Inr \<lparr>rows = height, cols = width,
                pixel_at = (\<lambda>r c. pixel_at img (y + r) (x + c))\<rparr>
      else Inl Roi_assertion)"

subsection \<open>alignImageWidths (lines 57-70)\<close>

text \<open>The first loop: the running minimum, started at \<^verbatim>\<open>std::numeric_limits<int>::max()\<close>.\<close>

fun min_cols_loop :: "Mat list \<Rightarrow> nat \<Rightarrow> nat" where
  "min_cols_loop [] minCols = minCols"
| "min_cols_loop (img # images) minCols =
     min_cols_loop images (if cols img < minCols then cols img else minCols)"

text \<open>The second loop: every image wider than the minimum is replaced by its crop.\<close>

fun crop_cols_loop :: "nat \<Rightarrow> Mat list \<Rightarrow> error + Mat list" where
  "crop_cols_loop minCols [] = Inr []"
| "crop_cols_loop minCols (img # images) =
     (case (if cols img > minCols then roi img 0 0 minCols (rows img) else Inr img) of
        Inl e \<Rightarrow> Inl e
      | Inr img' \<Rightarrow>
          (case crop_cols_loop minCols images of
             Inl e \<Rightarrow> Inl e
           | Inr images' \<Rightarrow> Inr (img' # images')))"

definition alignImageWidths :: "Mat list \<Rightarrow> error + Mat list" where
  "alignImageWidths images = crop_cols_loop (min_cols_loop images INT_MAX) images"

subsection \<open>alignImageHeights (lines 73-86)\<close>

fun min_rows_loop :: "Mat list \<Rightarrow> nat \<Rightarrow> nat" where
  "min_rows_loop [] minRows = minRows"
| "min_rows_loop (img # images) minRows =
     min_rows_loop images (if rows img < minRows then rows img else minRows)"

fun crop_rows_loop :: "nat \<Rightarrow> Mat list \<Rightarrow> error + Mat list" where
  "crop_rows_loop minRows [] = Inr []"
| "crop_rows_loop minRows (img # images) =
     (case (if rows img > minRows then roi img 0 0 (cols img) minRows else Inr img) of
        Inl e \<Rightarrow> Inl e
      | Inr img' \<Rightarrow>
          (case crop_rows_loop minRows images of
             Inl e \<Rightarrow> Inl e
           | Inr images' \<Rightarrow> Inr (img' # images')))"

definition alignImageHeights :: "Mat list \<Rightarrow> error + Mat list" where
  "alignImageHeights images = crop_rows_loop (min_rows_loop images INT_MAX) images"

text \<open>Lines 124-125 of \<^verbatim>\<open>processRPMImages\<close>: widths first, then heights.\<close>

definition align_group :: "Mat list \<Rightarrow> error + Mat list" where
  "align_group images =
     (case alignImageWidths images of
        Inl e \<Rightarrow> Inl e
      | Inr images' \<Rightarrow> alignImageHeights images')"

section \<open>The channel profiler (lines 195-233)\<close>

text \<open>
  \<^verbatim>\<open>channelChoice\<close> is a \<^verbatim>\<open>char\<close> that \<^verbatim>\<open>main\<close> lets through only when it is one of
  \<^verbatim>\<open>'R'\<close>, \<^verbatim>\<open>'G'\<close>, \<^verbatim>\<open>'B'\<close>.
\<close>

datatype channel = Chan_R | Chan_G | Chan_B

definition checked_div :: "real \<Rightarrow> real \<Rightarrow> error + real" where
  "checked_div a b = (if b = 0 then Inl Division_by_zero else Inr (a / b))"

text \<open>Lines 209-223: the summand of one pixel.\<close>

definition pixel_ratio :: "channel \<Rightarrow> Vec3f \<Rightarrow> error + real" where
  "pixel_ratio channelChoice pixel =
     (case pixel of (blue, green, red) \<Rightarrow>
        let luminance = red + green + blue;
            selectedColor = (case channelChoice of
                               Chan_R \<Rightarrow> red
                             | Chan_G \<Rightarrow> green
                             | Chan_B \<Rightarrow> blue)
        in if luminance > 0 then checked_div selectedColor luminance else Inr 0)"

text \<open>
  Lines 206-224: the loop over the rows of column \<open>x\<close> of one image, from row \<open>y\<close> on,
  with the accumulator \<open>totalColor\<close>. \<open>nrows\<close> is \<^verbatim>\<open>images[0].rows\<close>.
\<close>

function rows_loop :: "channel \<Rightarrow> Mat \<Rightarrow> nat \<Rightarrow> nat \<Rightarrow> nat \<Rightarrow> real \<Rightarrow> error + real" where
  "rows_loop channelChoice img x nrows y totalColor =
     (if y < nrows then
        (if y < rows img \<and> x < cols img then
           (case pixel_ratio channelChoice (pixel_at img y x) of
              Inl e \<Rightarrow> Inl e
            | Inr ratio \<Rightarrow> rows_loop channelChoice img x nrows (Suc y) (totalColor + ratio))
         else Inl Assertion_failed)
      else Inr totalColor)"
  by pat_completeness auto
termination
  by (relation "measure (\<lambda>(channelChoice, img, x, nrows, y, totalColor). nrows - y)") auto

declare rows_loop.simps [simp del]

text \<open>
  Lines 202-229: the loop over the images of the group for column \<open>x\<close>. The state is
  \<open>averageColorGroup\<close> and the values written to the row so far.
\<close>

fun images_loop ::
  "channel \<Rightarrow> nat \<Rightarrow> nat \<Rightarrow> Mat list \<Rightarrow> real \<Rightarrow> real list \<Rightarrow> error + (real \<times> real list)" where
  "images_loop channelChoice x nrows [] averageColorGroup written =
     Inr (averageColorGroup, written)"
| "images_loop channelChoice x nrows (img # images) averageColorGroup written =
     (case rows_loop channelChoice img x nrows 0 0 of
        Inl e \<Rightarrow> Inl e
      | Inr totalColor \<Rightarrow>
          (case checked_div totalColor (real nrows) of
             Inl e \<Rightarrow> Inl e
           | Inr averageColor \<Rightarrow>
               images_loop channelChoice x nrows images
                 (averageColorGroup + averageColor) (written @ [averageColor])))"

text \<open>One line of the CSV file, before its numbers are printed.\<close>

record csv_row =
  distance :: real
  replicates :: "real list"
  average :: real

text \<open>Lines 200-232: the body of the loop over the columns.\<close>

definition column_row ::
  "channel \<Rightarrow> real \<Rightarrow> real \<Rightarrow> nat \<Rightarrow> Mat list \<Rightarrow> nat \<Rightarrow> error + csv_row" where
  "column_row channelChoice distanceUpper pixelWidth nrows images x =
     (case images_loop channelChoice x nrows images 0 [] of
        Inl e \<Rightarrow> Inl e
      | Inr (averageColorGroup, written) \<Rightarrow>
          (case checked_div averageColorGroup (real (length images)) of
             Inl e \<Rightarrow> Inl e
           | Inr avg \<Rightarrow>
               Inr \<lparr>distance = distanceUpper - real x * pixelWidth,
                    replicates = written,
                    average = avg\<rparr>))"

text \<open>Lines 199-233: the loop over the columns, from column \<open>x\<close> on.\<close>

function cols_loop ::
  "channel \<Rightarrow> real \<Rightarrow> real \<Rightarrow> nat \<Rightarrow> nat \<Rightarrow> Mat list \<Rightarrow> nat \<Rightarrow> error + csv_row list" where
  "cols_loop channelChoice distanceUpper pixelWidth ncols nrows images x =
     (if x < ncols then
        (case column_row channelChoice distanceUpper pixelWidth nrows images x of
           Inl e \<Rightarrow> Inl e
         | Inr row \<Rightarrow>
             (case cols_loop channelChoice distanceUpper pixelWidth ncols nrows images (Suc x) of
                Inl e \<Rightarrow> Inl e
              | Inr rest \<Rightarrow> Inr (row # rest)))
      else Inr [])"
  by pat_completeness auto
termination
  by (relation "measure (\<lambda>(channelChoice, distanceUpper, pixelWidth, ncols, nrows, images, x).
                           ncols - x)") auto

declare cols_loop.simps [simp del]

text \<open>
  Lines 195-233. \<open>pixelWidth\<close> is used only inside the loop, that is when \<open>cols > 0\<close>; for
  \<open>cols = 0\<close> the C++ value is an infinity that nothing reads.
\<close>

definition profile :: "channel \<Rightarrow> real \<Rightarrow> real \<Rightarrow> Mat list \<Rightarrow> error + csv_row list" where
  "profile channelChoice distanceUpper distanceLower images =
     (case images of
        [] \<Rightarrow> Inl Index_out_of_range
      | img0 # _ \<Rightarrow>
          let ncols = cols img0;
              nrows = rows img0;
              pixelWidth = (distanceUpper - distanceLower) / real ncols
          in cols_loop channelChoice distanceUpper pixelWidth ncols nrows images 0)"

subsection \<open>The profile in the words of the specification\<close>

text \<open>``per-pixel ratio = selected/luminance if luminance>0, else 0''.\<close>

definition spec_ratio :: "channel \<Rightarrow> Vec3f \<Rightarrow> real" where
  "spec_ratio tag pixel =
     (case pixel of (c0, c1, c2) \<Rightarrow>
        let selected = (case tag of Chan_B \<Rightarrow> c0 | Chan_G \<Rightarrow> c1 | Chan_R \<Rightarrow> c2)
        in if c0 + c1 + c2 > 0 then selected / (c0 + c1 + c2) else 0)"

text \<open>``arithmetic mean of per-pixel ratio over the H rows (sum divided by H)''.\<close>

definition spec_column_value :: "channel \<Rightarrow> nat \<Rightarrow> Mat \<Rightarrow> nat \<Rightarrow> real" where
  "spec_column_value tag H img x =
     (\<Sum>y<H. spec_ratio tag (pixel_at img y x)) / real H"

text \<open>One line of the table, in the words of section 4.4.\<close>

definition spec_row ::
  "channel \<Rightarrow> real \<Rightarrow> real \<Rightarrow> nat \<Rightarrow> nat \<Rightarrow> Mat list \<Rightarrow> nat \<Rightarrow> csv_row" where
  "spec_row tag distanceUpper distanceLower W H images x =
     \<lparr>distance = distanceUpper - real x * ((distanceUpper - distanceLower) / real W),
      replicates = map (\<lambda>img. spec_column_value tag H img x) images,
      average = (\<Sum>img\<leftarrow>images. spec_column_value tag H img x) / real (length images)\<rparr>"

section \<open>Strings\<close>

text \<open>\<^verbatim>\<open>s.find(needle) != std::string::npos\<close>.\<close>

definition starts_with :: "string \<Rightarrow> string \<Rightarrow> bool" where
  "starts_with s needle = (take (length needle) s = needle)"

fun str_contains :: "string \<Rightarrow> string \<Rightarrow> bool" where
  "str_contains [] needle = (needle = [])"
| "str_contains (c # s) needle = (starts_with (c # s) needle \<or> str_contains s needle)"

text \<open>\<^verbatim>\<open>std::to_string\<close> of a \<^verbatim>\<open>size_t\<close> and of an \<^verbatim>\<open>int\<close>: decimal digits, a sign if negative.\<close>

definition digit_char :: "nat \<Rightarrow> char" where
  "digit_char d = ''0123456789'' ! (d mod 10)"

function to_string_nat :: "nat \<Rightarrow> string" where
  "to_string_nat n = (if n < 10 then [digit_char n] else to_string_nat (n div 10) @ [digit_char n])"
  by pat_completeness auto
termination
  by (relation "measure (\<lambda>n. n)") auto

declare to_string_nat.simps [simp del]

definition to_string :: "int \<Rightarrow> string" where
  "to_string n = (if n < 0 then CHR ''-'' # to_string_nat (nat (- n)) else to_string_nat (nat n))"

text \<open>
  \<^verbatim>\<open>std::stoi\<close>: \<^verbatim>\<open>strtol\<close> in base 10 (white space, an optional sign, the longest run of
  digits), \<^verbatim>\<open>std::invalid_argument\<close> when there is no digit and \<^verbatim>\<open>std::out_of_range\<close>
  when the value is not an \<^verbatim>\<open>int\<close>.
\<close>

definition isspace :: "char \<Rightarrow> bool" where
  "isspace c = (c \<in> {CHR '' '', CHR 0x09, CHR 0x0A, CHR 0x0B, CHR 0x0C, CHR 0x0D})"

definition is_digit :: "char \<Rightarrow> bool" where
  "is_digit c = (c \<in> set ''0123456789'')"

definition digit_value :: "char \<Rightarrow> nat" where
  "digit_value c = of_char c - 48"

definition decimal :: "string \<Rightarrow> nat" where
  "decimal ds = foldl (\<lambda>a c. 10 * a + digit_value c) 0 ds"

definition stoi :: "string \<Rightarrow> error + int" where
  "stoi str =
     (let s1 = dropWhile isspace str;
          negative = (s1 \<noteq> [] \<and> hd s1 = CHR ''-'');
          s2 = (if s1 \<noteq> [] \<and> (hd s1 = CHR ''-'' \<or> hd s1 = CHR ''+'') then tl s1 else s1);
          ds = takeWhile is_digit s2
      in if ds = [] then Inl Invalid_argument
         else let v = (if negative then - int (decimal ds) else int (decimal ds))
              in if v < - 2147483648 \<or> 2147483647 < v then Inl Out_of_range else Inr v)"

section \<open>The filename classifier (lines 15-26)\<close>

text \<open>
  \<^verbatim>\<open>std::regex\<close> is the C++ library's, not this repository's, so it is a parameter: the
  constructor takes the pattern's text and throws (\<open>None\<close>) or gives a compiled pattern;
  \<^verbatim>\<open>std::regex_search\<close> with a compiled pattern fails (\<open>None\<close>) or gives the sub-matches of
  the leftmost match, the whole match first.
\<close>

type_synonym regex = "string \<Rightarrow> string list option"
type_synonym regex_library = "string \<Rightarrow> regex option"

text \<open>\<^verbatim>\<open>match[n].str()\<close>: the empty string when there is no such sub-match.\<close>

definition sub_match_str :: "string list \<Rightarrow> nat \<Rightarrow> string" where
  "sub_match_str match n = (if n < length match then match ! n else [])"

fun extract_loop :: "regex \<Rightarrow> string list \<Rightarrow> int set \<Rightarrow> error + int set" where
  "extract_loop pattern [] uniqueRPMs = Inr uniqueRPMs"
| "extract_loop pattern (filename # filenames) uniqueRPMs =
     (case pattern filename of
        None \<Rightarrow> extract_loop pattern filenames uniqueRPMs
      | Some match \<Rightarrow>
          (case stoi (sub_match_str match 1) of
             Inl e \<Rightarrow> Inl e
           | Inr rpm \<Rightarrow> extract_loop pattern filenames (insert rpm uniqueRPMs)))"

text \<open>The text \<^verbatim>\<open>_(\d+)_R\d+\<close> that line 17 appends to the identifier.\<close>

definition rpm_pattern_suffix :: string where
  "rpm_pattern_suffix = ''_('' @ [CHR 0x5C] @ ''d+)_R'' @ [CHR 0x5C] @ ''d+''"

definition extractUniqueRPMs :: "regex_library \<Rightarrow> string list \<Rightarrow> string \<Rightarrow> error + int list" where
  "extractUniqueRPMs std_regex filenames identifier =
     (case std_regex (identifier @ rpm_pattern_suffix) of
        None \<Rightarrow> Inl Regex_error
      | Some pattern \<Rightarrow>
          (case extract_loop pattern filenames {} of
             Inl e \<Rightarrow> Inl e
           | Inr uniqueRPMs \<Rightarrow> Inr (sorted_list_of_set uniqueRPMs)))"

subsection \<open>The pattern for an identifier of ordinary characters\<close>

text \<open>
  In the ECMAScript grammar that \<^verbatim>\<open>std::regex\<close> uses by default, every character but
  \<^verbatim>\<open>^ $ \ . * + ? ( ) [ ] { } |\<close> stands for itself.
\<close>

definition regex_literal :: "string \<Rightarrow> bool" where
  "regex_literal identifier =
     (\<forall>c \<in> set identifier. c \<notin> set (''^$.*+?()[]{}|'' @ [CHR 0x5C]))"

text \<open>
  For such an identifier the pattern of line 17 matches, at the start of \<open>s\<close>, the
  identifier, an underscore, a run of digits (the first group), \<^verbatim>\<open>_R\<close> and a run of digits.
  The first run must end before an underscore, so it is the longest run; the last run is
  greedy.
\<close>

definition match_here :: "string \<Rightarrow> string \<Rightarrow> string list option" where
  "match_here identifier s =
     (if starts_with s (identifier @ ''_'') then
        let s1 = drop (length identifier + 1) s;
            ds = takeWhile is_digit s1;
            s2 = dropWhile is_digit s1;
            es = takeWhile is_digit (drop 2 s2)
        in if ds \<noteq> [] \<and> starts_with s2 ''_R'' \<and> es \<noteq> []
           then Some [identifier @ ''_'' @ ds @ ''_R'' @ es, ds]
           else None
      else None)"

text \<open>\<^verbatim>\<open>std::regex_search\<close>: the match at the leftmost position that has one.\<close>

fun ecma_search :: "string \<Rightarrow> regex" where
  "ecma_search identifier [] = match_here identifier []"
| "ecma_search identifier (c # s) =
     (case match_here identifier (c # s) of
        Some match \<Rightarrow> Some match
      | None \<Rightarrow> ecma_search identifier s)"

text \<open>
  The claim's words: the filename has, somewhere, a substring of the shape
  \<^verbatim>\<open><identifier>_<k>_R<digits>\<close>, the digits of \<open>k\<close> read in base 10.
\<close>

definition contains_key_pattern :: "string \<Rightarrow> int \<Rightarrow> string \<Rightarrow> bool" where
  "contains_key_pattern identifier k filename =
     (\<exists>pre ds es post.
        filename = pre @ identifier @ ''_'' @ ds @ ''_R'' @ es @ post \<and>
        ds \<noteq> [] \<and> list_all is_digit ds \<and> es \<noteq> [] \<and> list_all is_digit es \<and>
        int (decimal ds) = k)"

text \<open>What the code looks at: the leftmost such substring only.\<close>

definition first_key :: "string \<Rightarrow> string \<Rightarrow> int option" where
  "first_key identifier filename =
     (case ecma_search identifier filename of
        None \<Rightarrow> None
      | Some match \<Rightarrow> Some (int (decimal (sub_match_str match 1))))"

section \<open>Effects\<close>

text \<open>
  What the program does to the outside world, in the order in which it does it. Of the
  progress messages on \<^verbatim>\<open>std::cout\<close> (which the log file mirrors) only the first one of
  each group, line 95, is recorded, as \<open>Processing\<close>; the others change nothing else.
\<close>

datatype event =
    Log_open string
  | Stderr string
  | Processing int
  | Imread string
  | Create_directories string
  | Imwrite string Mat bool
  | Csv_create string
  | Csv_write string string

definition endl :: string where
  "endl = [CHR 0x0A]"

section \<open>The group validator (lines 29-43)\<close>

text \<open>
  Lines 31-36: the inner loop, with the counter. The counter is a C++ \<^verbatim>\<open>int\<close>; it counts
  names of one directory listing and stays far below \<open>2^31\<close>, so it is a natural number here.
\<close>

fun count_loop :: "string list \<Rightarrow> string \<Rightarrow> int \<Rightarrow> nat \<Rightarrow> nat" where
  "count_loop [] identifier rpm count = count"
| "count_loop (filename # filenames) identifier rpm count =
     count_loop filenames identifier rpm
       (if str_contains filename (identifier @ ''_'' @ to_string rpm @ ''_R'')
        then Suc count else count)"

fun validate_loop :: "string list \<Rightarrow> int list \<Rightarrow> string \<Rightarrow> event list \<times> bool" where
  "validate_loop filenames [] identifier = ([], True)"
| "validate_loop filenames (rpm # uniqueRPMs) identifier =
     (if count_loop filenames identifier rpm 0 \<noteq> 3
      then ([Stderr (''Error: RPM '' @ to_string rpm @ '' does not have exactly 3 replicates.'' @ endl)],
            False)
      else validate_loop filenames uniqueRPMs identifier)"

definition validateReplicates :: "string list \<Rightarrow> int list \<Rightarrow> string \<Rightarrow> event list \<times> bool" where
  "validateReplicates filenames uniqueRPMs identifier =
     validate_loop filenames uniqueRPMs identifier"

section \<open>The environment\<close>

text \<open>
  The library calls of \<^verbatim>\<open>main.cpp\<close> whose results the program does not determine:
  \<^item> \<open>directory_entries\<close>: \<^verbatim>\<open>fs::directory_iterator\<close>, each entry's file name with
    \<^verbatim>\<open>is_regular_file()\<close>, or \<open>None\<close> when it throws;
  \<^item> \<open>imread\<close>: \<^verbatim>\<open>cv::imread\<close>, an empty matrix when the file cannot be decoded;
  \<^item> \<open>GaussianBlur\<close>: the pixels \<^verbatim>\<open>cv::GaussianBlur\<close> computes from a source image and a
    kernel size; its destination has the size of the source;
  \<^item> \<open>create_directories\<close>: whether \<^verbatim>\<open>std::filesystem::create_directories\<close> returns;
  \<^item> \<open>imwrite\<close>: the result of \<^verbatim>\<open>cv::imwrite\<close>;
  \<^item> \<open>ofstream_open\<close>: whether the \<^verbatim>\<open>std::ofstream\<close> of a path is open;
  \<^item> \<open>show_double\<close>: the characters \<^verbatim>\<open>operator<<\<close> writes for a \<^verbatim>\<open>double\<close>;
  \<^item> \<open>std_regex\<close>: the regular expressions;
  \<^item> \<open>timestamp\<close>: the local time \<^verbatim>\<open>initializeLogging\<close> reads, as \<^verbatim>\<open>strftime\<close> prints it.
\<close>

record world =
  directory_entries :: "string \<Rightarrow> (string \<times> bool) list option"
  imread :: "string \<Rightarrow> Mat"
  GaussianBlur :: "Mat \<Rightarrow> int \<Rightarrow> nat \<Rightarrow> nat \<Rightarrow> Vec3f"
  create_directories :: "string \<Rightarrow> bool"
  imwrite :: "string \<Rightarrow> Mat \<Rightarrow> bool"
  ofstream_open :: "string \<Rightarrow> bool"
  show_double :: "real \<Rightarrow> string"
  std_regex :: regex_library
  timestamp :: string

text \<open>Lines 46-54.\<close>

definition getFilenames :: "world \<Rightarrow> string \<Rightarrow> error + string list" where
  "getFilenames w folderPath =
     (case directory_entries w folderPath of
        None \<Rightarrow> Inl Filesystem_error
      | Some entries \<Rightarrow> Inr (map fst (filter snd entries)))"

section \<open>processRPMImages (lines 89-238)\<close>

text \<open>
  Lines 98-115: the loading loop. Its state is the vectors \<open>images\<close> and
  \<open>replicateNames\<close> and the events so far. The kernel size \<open>2 * blurRadius + 1\<close> is computed
  without overflow: the radius is a small number typed at the terminal.
\<close>

fun load_loop ::
  "world \<Rightarrow> string \<Rightarrow> int \<Rightarrow> string \<Rightarrow> int \<Rightarrow> string list \<Rightarrow>
   Mat list \<times> string list \<times> event list \<Rightarrow> Mat list \<times> string list \<times> event list" where
  "load_loop w folderPath rpm identifier blurRadius [] state = state"
| "load_loop w folderPath rpm identifier blurRadius (filename # filenames)
     (images, replicateNames, events) =
     (if str_contains filename (identifier @ ''_'' @ to_string rpm @ ''_R'') then
        (let img = imread w (folderPath @ ''/'' @ filename) in
         if empty_mat img then
           load_loop w folderPath rpm identifier blurRadius filenames
             (images, replicateNames,
              events @ [Imread (folderPath @ ''/'' @ filename),
                        Stderr (''Error: Could not load image: '' @ filename @ endl)])
         else
           (let img' = (if blurRadius > 0
                        then img\<lparr>pixel_at := GaussianBlur w img (2 * blurRadius + 1)\<rparr>
                        else img)
            in load_loop w folderPath rpm identifier blurRadius filenames
                 (images @ [img'], replicateNames @ [filename],
                  events @ [Imread (folderPath @ ''/'' @ filename)])))
      else load_loop w folderPath rpm identifier blurRadius filenames
             (images, replicateNames, events))"

text \<open>Line 151: \<^verbatim>\<open>std::replace\<close> of every backslash by a slash.\<close>

definition replace_backslashes :: "string \<Rightarrow> string" where
  "replace_backslashes s = map (\<lambda>c. if c = CHR 0x5C then CHR ''/'' else c) s"

text \<open>
  Lines 130-166: the saving loop, at index \<open>i\<close> with \<open>images[i]\<close> the head of the list.
  \<^verbatim>\<open>convertTo(saveImage, CV_32F)\<close> leaves samples that are \<^verbatim>\<open>float\<close>s as they are.
\<close>

fun save_loop :: "world \<Rightarrow> string \<Rightarrow> string \<Rightarrow> int \<Rightarrow> Mat list \<Rightarrow> nat \<Rightarrow> event list" where
  "save_loop w alignedImagesPath identifier rpm [] i = []"
| "save_loop w alignedImagesPath identifier rpm (img # images) i =
     (let saveImage = img;
          outputFilename = replace_backslashes
            (alignedImagesPath @ ''/'' @
             identifier @ ''_'' @ to_string rpm @ ''_R'' @ to_string_nat (i + 1) @
             ''_'' @ to_string_nat (cols img) @ ''x'' @ to_string_nat (rows img) @
             ''_aligned.tif'');
          success = imwrite w outputFilename saveImage
      in [Imwrite outputFilename saveImage success]
         @ (if \<not> success then [Stderr (''Failed to save image: '' @ outputFilename @ endl)] else [])
         @ save_loop w alignedImagesPath identifier rpm images (Suc i))"

text \<open>Lines 175, 185-193: the names that depend on the channel, and the header.\<close>

definition channel_char :: "channel \<Rightarrow> string" where
  "channel_char channelChoice =
     (case channelChoice of Chan_R \<Rightarrow> ''R'' | Chan_G \<Rightarrow> ''G'' | Chan_B \<Rightarrow> ''B'')"

definition channelName :: "channel \<Rightarrow> string" where
  "channelName channelChoice =
     (case channelChoice of
        Chan_R \<Rightarrow> ''Redness''
      | Chan_G \<Rightarrow> ''Greenness''
      | Chan_B \<Rightarrow> ''Blueness'')"

definition csv_header :: "channel \<Rightarrow> string" where
  "csv_header channelChoice =
     ''Distance (cm),'' @ channelName channelChoice @ '' R1,'' @ channelName channelChoice @
     '' R2,'' @ channelName channelChoice @ '' R3,Average '' @ channelName channelChoice @ endl"

text \<open>Lines 200, 228, 232: the characters of one line of the table.\<close>

definition csv_line :: "world \<Rightarrow> csv_row \<Rightarrow> string" where
  "csv_line w row =
     show_double w (distance row) @
     concat (map (\<lambda>averageColor. '','' @ show_double w averageColor) (replicates row)) @
     '','' @ show_double w (average row) @ endl"

text \<open>
  The result of a call: the events it caused and, if an exception or the assertion ended
  it, which one. When the profiler ends so, the lines it wrote before are not recorded.
\<close>

definition processRPMImages ::
  "world \<Rightarrow> string list \<Rightarrow> string \<Rightarrow> int \<Rightarrow> string \<Rightarrow> string \<Rightarrow> real \<Rightarrow> real \<Rightarrow> channel \<Rightarrow> int \<Rightarrow>
   event list \<times> error option" where
  "processRPMImages w filenames folderPath rpm outputFolder identifier
     distanceUpper distanceLower channelChoice blurRadius =
     (case load_loop w folderPath rpm identifier blurRadius filenames ([], [], [Processing rpm]) of
        (images, replicateNames, events) \<Rightarrow>
          if length images \<noteq> 3 then
            (events @ [Stderr (''Error: Unexpected number of images for RPM '' @ to_string rpm @
                               ''. Expected 3, but found '' @ to_string_nat (length images) @
                               ''.'' @ endl)],
             None)
          else
            (case align_group images of
               Inl e \<Rightarrow> (events, Some e)
             | Inr aligned \<Rightarrow>
                 let alignedImagesPath = outputFolder @ ''/aligned_images'' in
                 if \<not> create_directories w alignedImagesPath
                 then (events @ [Create_directories alignedImagesPath], Some Filesystem_error)
                 else
                   let events1 = events @ [Create_directories alignedImagesPath] @
                                 save_loop w alignedImagesPath identifier rpm aligned 0;
                       csvFilePath = outputFolder @ ''/'' @ identifier @ ''_'' @ to_string rpm @
                                     ''_'' @ channel_char channelChoice @ ''ness.csv''
                   in if \<not> ofstream_open w csvFilePath
                      then (events1 @ [Stderr (''Error: Could not create CSV file: '' @
                                               csvFilePath @ endl)],
                            None)
                      else
                        (case profile channelChoice distanceUpper distanceLower aligned of
                           Inl e \<Rightarrow>
                             (events1 @ [Csv_create csvFilePath,
                                         Csv_write csvFilePath (csv_header channelChoice)],
                              Some e)
                         | Inr table \<Rightarrow>
                             (events1 @ [Csv_create csvFilePath,
                                         Csv_write csvFilePath
                                           (csv_header channelChoice @
                                            concat (map (csv_line w) table))],
                              None))))"

section \<open>main (lines 289-392)\<close>

text \<open>
  The Configuration that lines 290-372 read from the terminal, each value asked for again
  until it is valid.
\<close>

record Configuration =
  cfg_identifier :: string
  cfg_distanceUpper :: real
  cfg_distanceLower :: real
  cfg_channelChoice :: channel
  cfg_blurRadius :: int
  cfg_folderPath :: string
  cfg_outputFolder :: string

text \<open>How the program ends: \<^verbatim>\<open>main\<close> returns, or an exception that nothing catches.\<close>

datatype exit = Returned int | Terminated error

text \<open>Lines 386-389.\<close>

fun process_loop ::
  "world \<Rightarrow> string list \<Rightarrow> Configuration \<Rightarrow> int list \<Rightarrow> event list \<times> error option" where
  "process_loop w filenames cfg [] = ([], None)"
| "process_loop w filenames cfg (rpm # uniqueRPMs) =
     (case processRPMImages w filenames (cfg_folderPath cfg) rpm (cfg_outputFolder cfg) (cfg_identifier cfg)
             (cfg_distanceUpper cfg) (cfg_distanceLower cfg) (cfg_channelChoice cfg) (cfg_blurRadius cfg) of
        (events, Some e) \<Rightarrow> (events, Some e)
      | (events, None) \<Rightarrow>
          (case process_loop w filenames cfg uniqueRPMs of
             (events', result) \<Rightarrow> (events @ events', result)))"

text \<open>Lines 273-287, the name of the log file.\<close>

definition log_filename :: "world \<Rightarrow> string \<Rightarrow> string" where
  "log_filename w identifier = ''logs/'' @ identifier @ ''_log_'' @ timestamp w @ ''.txt''"

text \<open>
  Lines 374-391: the program once the Configuration is read and logging is set up. The
  first event records the log file that line 296 has opened by then.
\<close>

definition main_run :: "world \<Rightarrow> Configuration \<Rightarrow> event list \<times> exit" where
  "main_run w cfg =
     (let events0 = [Log_open (log_filename w (cfg_identifier cfg))] in
      case getFilenames w (cfg_folderPath cfg) of
        Inl e \<Rightarrow> (events0, Terminated e)
      | Inr filenames \<Rightarrow>
          (case extractUniqueRPMs (std_regex w) filenames (cfg_identifier cfg) of
             Inl e \<Rightarrow> (events0, Terminated e)
           | Inr uniqueRPMs \<Rightarrow>
               (case validateReplicates filenames uniqueRPMs (cfg_identifier cfg) of
                  (errors, False) \<Rightarrow> (events0 @ errors, Returned (- 1))
                | (errors, True) \<Rightarrow>
                    (case process_loop w filenames cfg uniqueRPMs of
                       (events, Some e) \<Rightarrow> (events0 @ errors @ events, Terminated e)
                     | (events, None) \<Rightarrow> (events0 @ errors @ events, Returned 0)))))"

section \<open>Vocabulary for the properties\<close>

text \<open>
  The files of group \<open>rpm\<close>, in the words of section 4.2: those whose name contains
  \<^verbatim>\<open><identifier>_<group_key>_R\<close>, in the order of the listing.
\<close>

definition group_files :: "string \<Rightarrow> int \<Rightarrow> string list \<Rightarrow> string list" where
  "group_files identifier rpm filenames =
     filter (\<lambda>filename. str_contains filename (identifier @ ''_'' @ to_string rpm @ ''_R''))
       filenames"

text \<open>A file decodes when \<^verbatim>\<open>cv::imread\<close> gives a matrix that is not empty.\<close>

definition decodes :: "world \<Rightarrow> string \<Rightarrow> string \<Rightarrow> bool" where
  "decodes w folderPath filename = (\<not> empty_mat (imread w (folderPath @ ''/'' @ filename)))"

text \<open>The image that enters the group for a file that decodes: blurred if a radius is set.\<close>

definition loaded_image :: "world \<Rightarrow> string \<Rightarrow> int \<Rightarrow> string \<Rightarrow> Mat" where
  "loaded_image w folderPath blurRadius filename =
     (let img = imread w (folderPath @ ''/'' @ filename)
      in if blurRadius > 0 then img\<lparr>pixel_at := GaussianBlur w img (2 * blurRadius + 1)\<rparr> else img)"

text \<open>The events of loading one file of the group.\<close>

definition load_events :: "world \<Rightarrow> string \<Rightarrow> string \<Rightarrow> event list" where
  "load_events w folderPath filename =
     (if decodes w folderPath filename
      then [Imread (folderPath @ ''/'' @ filename)]
      else [Imread (folderPath @ ''/'' @ filename),
            Stderr (''Error: Could not load image: '' @ filename @ endl)])"



fun is_csv :: "event \<Rightarrow> bool" where
  "is_csv (Csv_create path) = True"
| "is_csv (Csv_write path content) = True"
| "is_csv e = False"

text \<open>Events that belong to the processing of a group.\<close>

fun is_group_event :: "event \<Rightarrow> bool" where
  "is_group_event (Log_open path) = False"
| "is_group_event (Stderr message) = False"
| "is_group_event e = True"


text \<open>The group keys in the order in which their processing starts.\<close>

fun processed_keys :: "event list \<Rightarrow> int list" where
  "processed_keys [] = []"
| "processed_keys (Processing rpm # events) = rpm # processed_keys events"
| "processed_keys (e # events) = processed_keys events"


text \<open>
  \<^verbatim>\<open>std::regex\<close> on the patterns that line 17 builds from an identifier of ordinary
  characters. It knows no other pattern, and answers \<open>None\<close> there.
\<close>

definition ecma_regex :: regex_library where
  "ecma_regex pattern =
     (let n = length pattern - length rpm_pattern_suffix;
          identifier = take n pattern
      in if length rpm_pattern_suffix \<le> length pattern \<and> drop n pattern = rpm_pattern_suffix \<and>
            regex_literal identifier
         then Some (ecma_search identifier)
         else None)"

text \<open>
  A small environment for examples: a folder \<open>in\<close> of regular files, each given with a
  number \<open>v\<close>. The file does not decode when \<open>v = 0\<close>, and else decodes to an image of one row
  and two columns whose pixels are all \<open>(v, 1, 1)\<close>. Every write succeeds, and the numbers
  that occur are printed with six significant digits.
\<close>

definition example_world :: "(string \<times> real) list \<Rightarrow> world" where
  "example_world files =
     \<lparr>directory_entries =
        (\<lambda>path. if path = ''in'' then Some (map (\<lambda>(name, v). (name, True)) files) else None),
      imread = (\<lambda>path. case map_of files (drop 3 path) of
                          None \<Rightarrow> \<lparr>rows = 0, cols = 0, pixel_at = (\<lambda>y x. (0, 0, 0))\<rparr>
                        | Some v \<Rightarrow>
                            if v = 0 then \<lparr>rows = 0, cols = 0, pixel_at = (\<lambda>y x. (0, 0, 0))\<rparr>
                            else \<lparr>rows = 1, cols = 2, pixel_at = (\<lambda>y x. (v, 1, 1))\<rparr>),
      GaussianBlur = (\<lambda>img ksize. pixel_at img),
      create_directories = (\<lambda>path. True),
      imwrite = (\<lambda>path img. True),
      ofstream_open = (\<lambda>path. True),
      show_double = (\<lambda>v. if v = 10 then ''10'' else if v = 5 then ''5''
                          else if v = 15 / 16 then ''0.9375''
                          else if v = 5 / 6 then ''0.833333''
                          else if v = 10 / 11 then ''0.909091''
                          else if v = 1415 / 1584 then ''0.893308''
                          else ''?''),
      std_regex = ecma_regex,
      timestamp = ''20250101_120000''\<rparr>"

definition example_cfg :: Configuration where
  "example_cfg =
     \<lparr>cfg_identifier = ''W'', cfg_distanceUpper = 10, cfg_distanceLower = 0,
      cfg_channelChoice = Chan_B, cfg_blurRadius = 0, cfg_folderPath = ''in'',
      cfg_outputFolder = ''out''\<rparr>"

section \<open>The profiler computes the table of section 4.4\<close>

text \<open>
  The loops of the profiler against the sums of the specification: under the bounds that
  an aligned group satisfies, no assertion fails, no divisor is zero, and the accumulators
  hold the sums.
\<close>

lemma pixel_ratio_spec: "pixel_ratio ch p = Inr (spec_ratio ch p)"
  by (cases p; cases ch) (simp_all add: pixel_ratio_def spec_ratio_def checked_div_def Let_def add.commute add.left_commute)

lemma rows_loop_spec:
  assumes "nrows \<le> rows img" and "x < cols img"
  shows "rows_loop ch img x nrows y t =
           Inr (t + (\<Sum>k = y..<nrows. spec_ratio ch (pixel_at img k x)))"
  using assms
proof (induction ch img x nrows y t rule: rows_loop.induct)
  case (1 ch img x nrows y t)
  show ?case
  proof (cases "y < nrows")
    case True
    with "1.prems" have inb: "y < rows img \<and> x < cols img" by simp
    have "rows_loop ch img x nrows y t =
            rows_loop ch img x nrows (Suc y) (t + spec_ratio ch (pixel_at img y x))"
      using True inb by (subst rows_loop.simps) (simp add: pixel_ratio_spec)
    also have "\<dots> = Inr (t + spec_ratio ch (pixel_at img y x)
                      + (\<Sum>k = Suc y..<nrows. spec_ratio ch (pixel_at img k x)))"
      using "1.IH" [OF True _ pixel_ratio_spec] inb "1.prems" by simp
    finally show ?thesis
      using True by (simp add: sum.atLeast_Suc_lessThan add.assoc)
  next
    case False
    then show ?thesis by (subst rows_loop.simps) simp
  qed
qed

lemma images_loop_spec:
  assumes "\<forall>img \<in> set images. nrows \<le> rows img \<and> x < cols img" and "0 < nrows"
  shows "images_loop ch x nrows images g w =
           Inr (g + (\<Sum>img\<leftarrow>images. spec_column_value ch nrows img x),
                w @ map (\<lambda>img. spec_column_value ch nrows img x) images)"
  using assms
proof (induction images arbitrary: g w)
  case Nil
  then show ?case by simp
next
  case (Cons img images)
  then show ?case
    by (simp add: rows_loop_spec checked_div_def spec_column_value_def
        atLeast0LessThan add.assoc)
qed

lemma column_row_spec:
  assumes "\<forall>img \<in> set images. nrows \<le> rows img \<and> x < cols img" and "0 < nrows"
    and "images \<noteq> []"
  shows "column_row ch U ((U - L) / real W) nrows images x = Inr (spec_row ch U L W nrows images x)"
  using assms by (simp add: column_row_def images_loop_spec checked_div_def spec_row_def)

lemma cols_loop_spec:
  assumes "\<forall>img \<in> set images. nrows \<le> rows img \<and> ncols \<le> cols img" and "0 < nrows"
    and "images \<noteq> []"
  shows "cols_loop ch U ((U - L) / real W) ncols nrows images x =
           Inr (map (spec_row ch U L W nrows images) [x..<ncols])"
  using assms
proof (induction ch U "(U - L) / real W" ncols nrows images x rule: cols_loop.induct)
  case (1 ch U ncols nrows images x)
  show ?case
  proof (cases "x < ncols")
    case True
    have row: "column_row ch U ((U - L) / real W) nrows images x = Inr (spec_row ch U L W nrows images x)"
      using True "1.prems" by (intro column_row_spec) auto
    have rest: "cols_loop ch U ((U - L) / real W) ncols nrows images (Suc x) =
           Inr (map (spec_row ch U L W nrows images) [Suc x..<ncols])"
      using "1.hyps" [OF True row] "1.prems" by simp
    show ?thesis
      using True row rest by (subst cols_loop.simps) (simp add: upt_conv_Cons)
  next
    case False
    then show ?thesis by (subst cols_loop.simps) simp
  qed
qed

lemma profile_spec:
  assumes "images \<noteq> []" and "\<forall>img \<in> set images. rows img = H \<and> cols img = W" and "0 < H"
  shows "profile ch U L images = Inr (map (spec_row ch U L W H images) [0..<W])"
proof -
  obtain img0 rest where im: "images = img0 # rest"
    using assms(1) by (cases images) auto
  have d: "cols img0 = W" "rows img0 = H"
    using assms(2) by (simp_all add: im)
  have "profile ch U L images = cols_loop ch U ((U - L) / real W) W H images 0"
    by (simp add: profile_def im d)
  also have "\<dots> = Inr (map (spec_row ch U L W H images) [0..<W])"
    by (rule cols_loop_spec) (use assms in auto)
  finally show ?thesis .
qed





text \<open>
  Claim C7. The summand of a pixel is the quotient when the luminance is positive and 0
  otherwise, never a division by zero; a pixel whose samples are all 0 adds 0. On an aligned
  group with \<open>H > 0\<close> the profiler returns a table whatever the pixels are, and a row \<open>y0\<close>
  whose pixel is all 0 leaves the sum to the other rows while the divisor stays \<open>H\<close>.
\<close>

theorem division_is_guarded:
  assumes "length images = 3"
    and "\<forall>img \<in> set images. rows img = H \<and> cols img = W"
    and "0 < H"
  shows "pixel_ratio tag (c0, c1, c2) =
           (if c0 + c1 + c2 > 0
            then Inr ((case tag of Chan_B \<Rightarrow> c0 | Chan_G \<Rightarrow> c1 | Chan_R \<Rightarrow> c2) / (c0 + c1 + c2))
            else Inr 0) \<and>
         pixel_ratio tag (0, 0, 0) = Inr 0 \<and>
         (\<exists>table. profile tag distanceUpper distanceLower images = Inr table \<and> length table = W \<and>
            (\<forall>x<W. \<forall>i<3. \<forall>y0<H. pixel_at (images ! i) y0 x = (0, 0, 0) \<longrightarrow>
               replicates (table ! x) ! i =
                 (\<Sum>y \<in> {..<H} - {y0}. spec_ratio tag (pixel_at (images ! i) y x)) / real H))"
proof -
  let ?table = "map (spec_row tag distanceUpper distanceLower W H images) [0..<W]"
  have r: "pixel_ratio tag (c0, c1, c2) =
           (if c0 + c1 + c2 > 0
            then Inr ((case tag of Chan_B \<Rightarrow> c0 | Chan_G \<Rightarrow> c1 | Chan_R \<Rightarrow> c2) / (c0 + c1 + c2))
            else Inr 0)"
    by (cases tag) (simp_all add: pixel_ratio_def checked_div_def Let_def add.commute add.left_commute)
  have z: "pixel_ratio tag (0, 0, 0) = Inr 0"
    by (simp add: pixel_ratio_def)
  have ne: "images \<noteq> []" using assms(1) by auto
  have p: "profile tag distanceUpper distanceLower images = Inr ?table"
    using profile_spec [OF ne assms(2) assms(3)] .
  have v: "replicates (?table ! x) ! i =
             (\<Sum>y \<in> {..<H} - {y0}. spec_ratio tag (pixel_at (images ! i) y x)) / real H"
    if "x < W" "i < 3" "y0 < H" "pixel_at (images ! i) y0 x = (0, 0, 0)" for x i y0
  proof -
    have "(\<Sum>y<H. spec_ratio tag (pixel_at (images ! i) y x)) =
            spec_ratio tag (pixel_at (images ! i) y0 x) +
            (\<Sum>y \<in> {..<H} - {y0}. spec_ratio tag (pixel_at (images ! i) y x))"
      using that(3) by (intro sum.remove) auto
    also have "spec_ratio tag (pixel_at (images ! i) y0 x) = 0"
      by (simp add: that(4) spec_ratio_def)
    finally show ?thesis
      using that(1,2) assms(1) by (simp add: spec_row_def spec_column_value_def)
  qed
  show ?thesis
    using r z p v by (intro conjI exI [of _ ?table]) simp_all
qed

text \<open>
  The theorem at a column of two pixels, \<open>(0, 0, 0)\<close> above \<open>(1, 1, 2)\<close>: the red value is
  \<open>(0 + 2/4) / 2\<close>.
\<close>

theorem division_is_guarded_witness:
  "\<exists>table. profile Chan_R 10 0
             [\<lparr>rows = 2, cols = 1, pixel_at = (\<lambda>y x. if y = 0 then (0, 0, 0) else (1, 1, 2))\<rparr>,
              \<lparr>rows = 2, cols = 1, pixel_at = (\<lambda>y x. (1, 1, 1))\<rparr>,
              \<lparr>rows = 2, cols = 1, pixel_at = (\<lambda>y x. (1, 1, 1))\<rparr>] = Inr table \<and>
           replicates (table ! 0) ! 0 = 1 / 4"
proof -
  let ?images = "[\<lparr>rows = 2, cols = 1, pixel_at = (\<lambda>y x. if y = 0 then (0, 0, 0) else (1, 1, 2))\<rparr>,
              \<lparr>rows = 2, cols = 1, pixel_at = (\<lambda>y x. (1, 1, 1))\<rparr>,
              \<lparr>rows = 2, cols = 1, pixel_at = (\<lambda>y x. (1, 1, 1::real))\<rparr>]"
  obtain table where t: "profile Chan_R 10 0 ?images = Inr table"
    "\<forall>x<1. \<forall>i<3. \<forall>y0<2. pixel_at (?images ! i) y0 x = (0, 0, 0) \<longrightarrow>
               replicates (table ! x) ! i =
                 (\<Sum>y \<in> {..<2} - {y0}. spec_ratio Chan_R (pixel_at (?images ! i) y x)) / real (2::nat)"
    using division_is_guarded [of ?images 2 1 Chan_R 0 0 0 10 0] by auto
  have s: "{..<2::nat} - {0} = {1}" by auto
  have "replicates (table ! 0) ! 0 = 1 / 4"
    using t(2) [rule_format, of 0 0 0] by (simp add: s spec_ratio_def)
  then show ?thesis
    using t(1) by simp
qed

section \<open>The aligner crops to the smallest width and height\<close>

lemma Min_insert_min:
  fixes a b :: nat
  shows "finite S \<Longrightarrow> Min (insert (min a b) S) = min a (Min (insert b S))"
  by (cases "S = {}") (simp_all add: min.assoc)

lemma Min_insert_bound:
  fixes b :: nat
  assumes "finite S" and "S \<noteq> {}" and "\<forall>x \<in> S. x \<le> b"
  shows "Min (insert b S) = Min S"
proof -
  have "Min S \<in> S" using assms(1,2) by (rule Min_in)
  then have "Min S \<le> b" using assms(3) by blast
  moreover have "Min (insert b S) = min b (Min S)"
    using assms(1,2) by (rule Min_insert)
  ultimately show ?thesis by (simp add: min_def)
qed

lemma min_cols_loop_Min: "min_cols_loop images m = Min (insert m (cols ` set images))"
proof (induction images arbitrary: m)
  case Nil
  then show ?case by simp
next
  case (Cons img images)
  have "min_cols_loop (img # images) m = min_cols_loop images (min m (cols img))"
    by (auto simp: min_def)
  also have "\<dots> = Min (insert (min m (cols img)) (cols ` set images))"
    by (rule Cons.IH)
  also have "\<dots> = min m (Min (insert (cols img) (cols ` set images)))"
    by (rule Min_insert_min) simp
  also have "\<dots> = Min (insert m (insert (cols img) (cols ` set images)))"
    by simp
  finally show ?case
    by simp
qed

lemma min_rows_loop_Min: "min_rows_loop images m = Min (insert m (rows ` set images))"
proof (induction images arbitrary: m)
  case Nil
  then show ?case by simp
next
  case (Cons img images)
  have "min_rows_loop (img # images) m = min_rows_loop images (min m (rows img))"
    by (auto simp: min_def)
  also have "\<dots> = Min (insert (min m (rows img)) (rows ` set images))"
    by (rule Cons.IH)
  also have "\<dots> = min m (Min (insert (rows img) (rows ` set images)))"
    by (rule Min_insert_min) simp
  also have "\<dots> = Min (insert m (insert (rows img) (rows ` set images)))"
    by simp
  finally show ?case
    by simp
qed

lemma roi_cols: "w \<le> cols img \<Longrightarrow> roi img 0 0 w (rows img) = Inr (img\<lparr>cols := w\<rparr>)"
  by (simp add: roi_def)

lemma roi_rows: "h \<le> rows img \<Longrightarrow> roi img 0 0 (cols img) h = Inr (img\<lparr>rows := h\<rparr>)"
  by (simp add: roi_def)

lemma crop_cols_loop_map:
  "\<forall>img \<in> set images. minCols \<le> cols img \<Longrightarrow>
     crop_cols_loop minCols images = Inr (map (\<lambda>img. img\<lparr>cols := minCols\<rparr>) images)"
  by (induction images) (auto simp: roi_cols)

lemma crop_rows_loop_map:
  "\<forall>img \<in> set images. minRows \<le> rows img \<Longrightarrow>
     crop_rows_loop minRows images = Inr (map (\<lambda>img. img\<lparr>rows := minRows\<rparr>) images)"
  by (induction images) (auto simp: roi_rows)

lemma alignImageWidths_map:
  assumes "images \<noteq> []" and "\<forall>img \<in> set images. cols img \<le> INT_MAX"
  shows "alignImageWidths images = Inr (map (\<lambda>img. img\<lparr>cols := Min (cols ` set images)\<rparr>) images)"
proof -
  have "Min (insert INT_MAX (cols ` set images)) = Min (cols ` set images)"
    using assms by (intro Min_insert_bound) auto
  then have m: "min_cols_loop images INT_MAX = Min (cols ` set images)"
    by (simp add: min_cols_loop_Min)
  show ?thesis
    unfolding alignImageWidths_def m
    by (rule crop_cols_loop_map) simp
qed

lemma alignImageHeights_map:
  assumes "images \<noteq> []" and "\<forall>img \<in> set images. rows img \<le> INT_MAX"
  shows "alignImageHeights images = Inr (map (\<lambda>img. img\<lparr>rows := Min (rows ` set images)\<rparr>) images)"
proof -
  have "Min (insert INT_MAX (rows ` set images)) = Min (rows ` set images)"
    using assms by (intro Min_insert_bound) auto
  then have m: "min_rows_loop images INT_MAX = Min (rows ` set images)"
    by (simp add: min_rows_loop_Min)
  show ?thesis
    unfolding alignImageHeights_def m
    by (rule crop_rows_loop_map) simp
qed

lemma align_group_map:
  assumes "images \<noteq> []"
    and "\<forall>img \<in> set images. rows img \<le> INT_MAX \<and> cols img \<le> INT_MAX"
  shows "align_group images =
           Inr (map (\<lambda>img. img\<lparr>cols := Min (cols ` set images), rows := Min (rows ` set images)\<rparr>)
                  images)"
proof -
  let ?ws = "map (\<lambda>img. img\<lparr>cols := Min (cols ` set images)\<rparr>) images"
  have w: "alignImageWidths images = Inr ?ws"
    using assms by (intro alignImageWidths_map) auto
  have r: "rows ` set ?ws = rows ` set images"
    by (auto simp: image_iff)
  have "alignImageHeights ?ws = Inr (map (\<lambda>img. img\<lparr>rows := Min (rows ` set ?ws)\<rparr>) ?ws)"
    using assms by (intro alignImageHeights_map) auto
  then show ?thesis
    unfolding align_group_def w r by (simp add: comp_def)
qed

text \<open>
  Claim C3. For every list of 3 images (whose sizes are C++ \<^verbatim>\<open>int\<close>s), the aligner returns
  3 images that all have the smallest width and the smallest height of the inputs, and each
  has, at every row and column it keeps, the pixel of its own input at that row and column:
  it is the top-left sub-rectangle.
\<close>

theorem aligner_crops_to_minimum:
  assumes "length images = 3"
    and "\<forall>img \<in> set images. rows img \<le> INT_MAX \<and> cols img \<le> INT_MAX"
  shows "\<exists>aligned. align_group images = Inr aligned \<and> length aligned = 3 \<and>
           (\<forall>i<3. cols (aligned ! i) = Min (cols ` set images) \<and>
                   rows (aligned ! i) = Min (rows ` set images) \<and>
                   (\<forall>y < rows (aligned ! i). \<forall>x < cols (aligned ! i).
                      pixel_at (aligned ! i) y x = pixel_at (images ! i) y x))"
proof -
  have ne: "images \<noteq> []" using assms(1) by auto
  show ?thesis
    unfolding align_group_map [OF ne assms(2)]
    using assms(1) by simp
qed

text \<open>The example of the specification: widths 100, 120, 90 and heights 50, 60, 55.\<close>

theorem aligner_crops_to_minimum_witness:
  "\<exists>aligned. align_group
       [\<lparr>rows = 50, cols = 100, pixel_at = (\<lambda>y x. (real y, real x, 1))\<rparr>,
        \<lparr>rows = 60, cols = 120, pixel_at = (\<lambda>y x. (real y, real x, 2))\<rparr>,
        \<lparr>rows = 55, cols = 90, pixel_at = (\<lambda>y x. (real y, real x, 3))\<rparr>] = Inr aligned \<and>
     length aligned = 3 \<and>
     (\<forall>i<3. cols (aligned ! i) = 90 \<and> rows (aligned ! i) = 50) \<and>
     (\<forall>y<50. \<forall>x<90. pixel_at (aligned ! 0) y x = (real y, real x, 1) \<and>
                      pixel_at (aligned ! 1) y x = (real y, real x, 2) \<and>
                      pixel_at (aligned ! 2) y x = (real y, real x, 3))"
  using aligner_crops_to_minimum
    [of "[\<lparr>rows = 50, cols = 100, pixel_at = (\<lambda>y x. (real y, real x, 1))\<rparr>,
          \<lparr>rows = 60, cols = 120, pixel_at = (\<lambda>y x. (real y, real x, 2))\<rparr>,
          \<lparr>rows = 55, cols = 90, pixel_at = (\<lambda>y x. (real y, real x, 3))\<rparr>]"]
  by (auto simp: INT_MAX_def)

section \<open>Validation, loading and the loop over the groups\<close>

lemma count_loop_filter:
  "count_loop filenames identifier rpm count =
     count + length (group_files identifier rpm filenames)"
  by (induction filenames arbitrary: count) (simp_all add: group_files_def)

lemma validate_loop_result:
  "snd (validate_loop filenames uniqueRPMs identifier) =
     (\<forall>rpm \<in> set uniqueRPMs. length (group_files identifier rpm filenames) = 3)"
  by (induction uniqueRPMs) (simp_all add: count_loop_filter)

lemma validate_loop_events:
  "fst (validate_loop filenames uniqueRPMs identifier) =
     (case filter (\<lambda>rpm. length (group_files identifier rpm filenames) \<noteq> 3) uniqueRPMs of
        [] \<Rightarrow> []
      | rpm # _ \<Rightarrow> [Stderr (''Error: RPM '' @ to_string rpm @
                            '' does not have exactly 3 replicates.'' @ endl)])"
  by (induction uniqueRPMs) (simp_all add: count_loop_filter)

lemma load_loop_spec:
  "load_loop w folderPath rpm identifier blurRadius filenames (images, names, events) =
     (images @ map (loaded_image w folderPath blurRadius)
                (filter (decodes w folderPath) (group_files identifier rpm filenames)),
      names @ filter (decodes w folderPath) (group_files identifier rpm filenames),
      events @ concat (map (load_events w folderPath) (group_files identifier rpm filenames)))"
  by (induction filenames arbitrary: images names events)
    (simp_all add: group_files_def decodes_def loaded_image_def load_events_def Let_def)




text \<open>
  Claim C4. When the listing and the classifier succeed and some extracted key \<open>rpm\<close> has a
  number of files containing \<^verbatim>\<open><identifier>_<rpm>_R\<close> other than 3, the run consists of the
  opening of the log and one error message and returns \<open>-1\<close>: no group is processed, not
  even one that has its 3 files.
\<close>

theorem validation_failure_aborts_run:
  assumes "getFilenames w (cfg_folderPath cfg) = Inr filenames"
    and "extractUniqueRPMs (std_regex w) filenames (cfg_identifier cfg) = Inr uniqueRPMs"
    and "rpm \<in> set uniqueRPMs"
    and "length (group_files (cfg_identifier cfg) rpm filenames) \<noteq> 3"
  shows "\<exists>message.
           main_run w cfg =
             ([Log_open (log_filename w (cfg_identifier cfg)), Stderr message], Returned (- 1)) \<and>
           (\<forall>e \<in> set (fst (main_run w cfg)). \<not> is_group_event e)"
proof -
  have bad: "filter (\<lambda>rpm. length (group_files (cfg_identifier cfg) rpm filenames) \<noteq> 3) uniqueRPMs
               \<noteq> []"
    using assms(3,4) by (auto simp: filter_empty_conv)
  then obtain bad_rpm rest where
    "filter (\<lambda>rpm. length (group_files (cfg_identifier cfg) rpm filenames) \<noteq> 3) uniqueRPMs
       = bad_rpm # rest"
    by (cases "filter (\<lambda>rpm. length (group_files (cfg_identifier cfg) rpm filenames) \<noteq> 3)
                 uniqueRPMs") auto
  then obtain message where
    ev: "fst (validate_loop filenames uniqueRPMs (cfg_identifier cfg)) = [Stderr message]"
    by (simp add: validate_loop_events)
  have res: "\<not> snd (validate_loop filenames uniqueRPMs (cfg_identifier cfg))"
    using assms(3,4) by (auto simp: validate_loop_result)
  have "validateReplicates filenames uniqueRPMs (cfg_identifier cfg) = ([Stderr message], False)"
    using ev res by (simp add: validateReplicates_def prod_eq_iff)
  then have "main_run w cfg =
      ([Log_open (log_filename w (cfg_identifier cfg)), Stderr message], Returned (- 1))"
    by (simp add: main_run_def assms(1,2))
  then show ?thesis by simp
qed

text \<open>
  The theorem at a folder where group 7 has three files and group 5 has two.
\<close>

theorem validation_failure_aborts_run_witness:
  "\<exists>message.
     main_run (example_world [(''W_7_R1.tif'', 10), (''W_5_R1.tif'', 10), (''W_7_R2.tif'', 20),
                              (''W_5_R2.tif'', 20), (''W_7_R3.tif'', 30)]) example_cfg =
       ([Log_open ''logs/W_log_20250101_120000.txt'', Stderr message], Returned (- 1))"
proof -
  let ?files = "[(''W_7_R1.tif'', 10), (''W_5_R1.tif'', 10), (''W_7_R2.tif'', 20),
                 (''W_5_R2.tif'', 20), (''W_7_R3.tif'', 30::real)]"
  let ?names = "[''W_7_R1.tif'', ''W_5_R1.tif'', ''W_7_R2.tif'', ''W_5_R2.tif'', ''W_7_R3.tif'']"
  have 1: "getFilenames (example_world ?files) (cfg_folderPath example_cfg) = Inr ?names"
    by (simp add: getFilenames_def example_world_def example_cfg_def)
  have "extractUniqueRPMs ecma_regex ?names ''W'' = Inr [5, 7]"
    by code_simp
  then have 2: "extractUniqueRPMs (std_regex (example_world ?files)) ?names
                  (cfg_identifier example_cfg) = Inr [5, 7]"
    by (simp add: example_world_def example_cfg_def)
  have "length (group_files ''W'' 5 ?names) \<noteq> 3"
    by code_simp
  then have 4: "length (group_files (cfg_identifier example_cfg) 5 ?names) \<noteq> 3"
    by (simp add: example_cfg_def)
  have 3: "(5::int) \<in> set [5, 7]" by simp
  show ?thesis
    using validation_failure_aborts_run [OF 1 2 3 4]
    by (auto simp: log_filename_def example_world_def example_cfg_def)
qed





section \<open>The table does not depend on the clock or on the image writer\<close>

lemma save_loop_no_csv:
  "filter is_csv (save_loop w alignedImagesPath identifier rpm images i) = []"
  by (induction images arbitrary: i) (simp_all add: Let_def)

lemma load_loop_frame:
  "load_loop (w\<lparr>imwrite := iw, timestamp := t\<rparr>) folderPath rpm identifier blurRadius filenames state =
   load_loop w folderPath rpm identifier blurRadius filenames state"
proof -
  obtain images names events where s: "state = (images, names, events)"
    by (cases state) auto
  have "loaded_image (w\<lparr>imwrite := iw, timestamp := t\<rparr>) folderPath blurRadius =
        loaded_image w folderPath blurRadius"
    by (simp add: fun_eq_iff loaded_image_def Let_def)
  moreover have "decodes (w\<lparr>imwrite := iw, timestamp := t\<rparr>) folderPath = decodes w folderPath"
    by (simp add: fun_eq_iff decodes_def)
  moreover have "load_events (w\<lparr>imwrite := iw, timestamp := t\<rparr>) folderPath =
                 load_events w folderPath"
    by (simp add: fun_eq_iff load_events_def decodes_def)
  ultimately show ?thesis
    by (simp add: s load_loop_spec)
qed

lemma csv_line_frame: "csv_line (w\<lparr>imwrite := iw, timestamp := t\<rparr>) = csv_line w"
  by (simp add: fun_eq_iff csv_line_def)

lemma processRPMImages_frame:
  "filter is_csv (fst (processRPMImages (w\<lparr>imwrite := iw, timestamp := t\<rparr>) filenames folderPath rpm
       outputFolder identifier distanceUpper distanceLower channelChoice blurRadius)) =
   filter is_csv (fst (processRPMImages w filenames folderPath rpm
       outputFolder identifier distanceUpper distanceLower channelChoice blurRadius)) \<and>
   snd (processRPMImages (w\<lparr>imwrite := iw, timestamp := t\<rparr>) filenames folderPath rpm
       outputFolder identifier distanceUpper distanceLower channelChoice blurRadius) =
   snd (processRPMImages w filenames folderPath rpm
       outputFolder identifier distanceUpper distanceLower channelChoice blurRadius)"
  by (simp add: processRPMImages_def load_loop_frame csv_line_frame save_loop_no_csv Let_def
      split: prod.splits sum.splits)

lemma process_loop_frame:
  "filter is_csv (fst (process_loop (w\<lparr>imwrite := iw, timestamp := t\<rparr>) filenames cfg uniqueRPMs)) =
   filter is_csv (fst (process_loop w filenames cfg uniqueRPMs)) \<and>
   snd (process_loop (w\<lparr>imwrite := iw, timestamp := t\<rparr>) filenames cfg uniqueRPMs) =
   snd (process_loop w filenames cfg uniqueRPMs)"
proof (induction uniqueRPMs)
  case Nil
  then show ?case by simp
next
  case (Cons rpm uniqueRPMs)
  let ?p = "\<lambda>w. processRPMImages w filenames (cfg_folderPath cfg) rpm (cfg_outputFolder cfg)
             (cfg_identifier cfg) (cfg_distanceUpper cfg) (cfg_distanceLower cfg)
             (cfg_channelChoice cfg) (cfg_blurRadius cfg)"
  have f: "filter is_csv (fst (?p (w\<lparr>imwrite := iw, timestamp := t\<rparr>))) = filter is_csv (fst (?p w))"
    and r: "snd (?p (w\<lparr>imwrite := iw, timestamp := t\<rparr>)) = snd (?p w)"
    using processRPMImages_frame by blast+
  have step: "process_loop v filenames cfg (rpm # uniqueRPMs) =
          (case snd (?p v) of
             Some e \<Rightarrow> (fst (?p v), Some e)
           | None \<Rightarrow> (fst (?p v) @ fst (process_loop v filenames cfg uniqueRPMs),
                      snd (process_loop v filenames cfg uniqueRPMs)))" for v
    by (simp split: prod.splits option.splits)
  show ?case
    unfolding step r using f Cons.IH by (simp split: option.splits)
qed

text \<open>
  Claim C8. Two runs on the same listing, the same decoded images and the same
  Configuration write the same CSV files with the same content, whatever the time of each
  run (which names the log file) and whatever becomes of the aligned images (whether
  \<^verbatim>\<open>cv::imwrite\<close> succeeds): the CSV events of a run do not change when the clock and the
  image writer of the environment are replaced.
\<close>

theorem csv_output_is_deterministic:
  "filter is_csv (fst (main_run (w\<lparr>imwrite := iw, timestamp := t\<rparr>) cfg)) =
   filter is_csv (fst (main_run w cfg))"
proof -
  have g: "getFilenames (w\<lparr>imwrite := iw, timestamp := t\<rparr>) = getFilenames w"
    by (simp add: fun_eq_iff getFilenames_def)
  have v: "filter is_csv (fst (validateReplicates filenames uniqueRPMs ident)) = []"
    for filenames uniqueRPMs ident
    unfolding validateReplicates_def by (induction uniqueRPMs) simp_all
  have run: "filter is_csv (fst (main_run v cfg)) =
      (case getFilenames v (cfg_folderPath cfg) of
         Inl e \<Rightarrow> []
       | Inr filenames \<Rightarrow>
           (case extractUniqueRPMs (std_regex v) filenames (cfg_identifier cfg) of
              Inl e \<Rightarrow> []
            | Inr uniqueRPMs \<Rightarrow>
                if snd (validateReplicates filenames uniqueRPMs (cfg_identifier cfg))
                then filter is_csv (fst (process_loop v filenames cfg uniqueRPMs))
                else []))" for v
  proof -
    have v': "filter is_csv errors = []"
      if "validateReplicates filenames uniqueRPMs ident = (errors, ok)"
      for filenames uniqueRPMs ident errors ok
      using v [of filenames uniqueRPMs ident] that by simp
    show ?thesis
      by (auto simp: main_run_def Let_def v'
          split: sum.splits prod.splits option.splits bool.splits)
  qed
  show ?thesis
    unfolding run g using process_loop_frame by (simp split: sum.splits)
qed

text \<open>The theorem at a run with one group, repeated later with an image writer that fails.\<close>

theorem csv_output_is_deterministic_witness:
  "filter is_csv
     (fst (main_run ((example_world [(''W_5_R3.tif'', 30), (''W_5_R1.tif'', 10),
                                     (''W_5_R2.tif'', 20)])
                       \<lparr>imwrite := (\<lambda>path img. False), timestamp := ''20260615_093000''\<rparr>)
             example_cfg)) =
   filter is_csv
     (fst (main_run (example_world [(''W_5_R3.tif'', 30), (''W_5_R1.tif'', 10),
                                    (''W_5_R2.tif'', 20)])
             example_cfg))"
  by (rule csv_output_is_deterministic)

section \<open>Replicate indices follow the order of loading\<close>










section \<open>The classifier reads the leftmost match of each file name\<close>

lemma match_here_shape:
  assumes "match_here ident s = Some m"
  shows "\<exists>ds es post. s = ident @ ''_'' @ ds @ ''_R'' @ es @ post \<and>
           m = [ident @ ''_'' @ ds @ ''_R'' @ es, ds] \<and>
           ds \<noteq> [] \<and> list_all is_digit ds \<and> es \<noteq> [] \<and> list_all is_digit es"
proof -
  define s1 where "s1 = drop (length ident + 1) s"
  define ds where "ds = takeWhile is_digit s1"
  define s2 where "s2 = dropWhile is_digit s1"
  define es where "es = takeWhile is_digit (drop 2 s2)"
  define post where "post = dropWhile is_digit (drop 2 s2)"
  have sw: "starts_with s (ident @ ''_'')"
    using assms by (simp add: match_here_def split: if_splits)
  have c: "ds \<noteq> []" "starts_with s2 ''_R''" "es \<noteq> []"
    and m: "m = [ident @ ''_'' @ ds @ ''_R'' @ es, ds]"
    using assms sw unfolding s1_def ds_def s2_def es_def
    by (auto simp: match_here_def Let_def split: if_splits)
  have "s = take (length ident + 1) s @ s1"
    by (simp add: s1_def)
  also have "take (length ident + 1) s = ident @ ''_''"
    using sw by (simp add: starts_with_def)
  finally have a: "s = ident @ ''_'' @ s1" by simp
  have b: "s1 = ds @ s2"
    by (simp add: ds_def s2_def)
  have "s2 = take 2 s2 @ drop 2 s2" by simp
  also have "take 2 s2 = ''_R''"
    using c(2) by (simp add: starts_with_def numeral_2_eq_2)
  finally have d: "s2 = ''_R'' @ es @ post"
    by (simp add: es_def post_def)
  have "list_all is_digit ds" "list_all is_digit es"
    by (simp_all add: ds_def es_def list_all_iff) (auto dest: set_takeWhileD)
  then show ?thesis
    using a b d c m by (intro exI [of _ ds] exI [of _ es] exI [of _ post]) simp
qed

lemma ecma_search_shape:
  assumes "ecma_search ident s = Some m"
  shows "\<exists>pre ds es post. s = pre @ ident @ ''_'' @ ds @ ''_R'' @ es @ post \<and>
           m = [ident @ ''_'' @ ds @ ''_R'' @ es, ds] \<and>
           ds \<noteq> [] \<and> list_all is_digit ds \<and> es \<noteq> [] \<and> list_all is_digit es"
  using assms
proof (induction s)
  case Nil
  then show ?case
    using match_here_shape [of ident "[]" m] by (auto intro: exI [of _ "[]"])
next
  case (Cons c s)
  show ?case
  proof (cases "match_here ident (c # s)")
    case (Some m')
    then have "m' = m" using Cons.prems by simp
    then obtain ds es post where
      "c # s = ident @ ''_'' @ ds @ ''_R'' @ es @ post \<and>
           m = [ident @ ''_'' @ ds @ ''_R'' @ es, ds] \<and>
           ds \<noteq> [] \<and> list_all is_digit ds \<and> es \<noteq> [] \<and> list_all is_digit es"
      using match_here_shape [of ident "c # s" m] Some by blast
    then show ?thesis
      by (intro exI [of _ "[]"] exI [of _ ds] exI [of _ es] exI [of _ post]) simp
  next
    case None
    then have "ecma_search ident s = Some m" using Cons.prems by simp
    then obtain pre ds es post where
      "s = pre @ ident @ ''_'' @ ds @ ''_R'' @ es @ post \<and>
           m = [ident @ ''_'' @ ds @ ''_R'' @ es, ds] \<and>
           ds \<noteq> [] \<and> list_all is_digit ds \<and> es \<noteq> [] \<and> list_all is_digit es"
      using Cons.IH by blast
    then show ?thesis
      by (intro exI [of _ "c # pre"] exI [of _ ds] exI [of _ es] exI [of _ post]) simp
  qed
qed

lemma first_key_contains:
  assumes "first_key ident filename = Some k"
  shows "contains_key_pattern ident k filename"
proof -
  obtain m where m: "ecma_search ident filename = Some m"
    and k: "k = int (decimal (sub_match_str m 1))"
    using assms by (auto simp: first_key_def split: option.splits)
  obtain pre ds es post where
    "filename = pre @ ident @ ''_'' @ ds @ ''_R'' @ es @ post"
    "m = [ident @ ''_'' @ ds @ ''_R'' @ es, ds]"
    "ds \<noteq> []" "list_all is_digit ds" "es \<noteq> []" "list_all is_digit es"
    using ecma_search_shape [OF m] by blast
  then show ?thesis
    unfolding contains_key_pattern_def
    by (intro exI [of _ pre] exI [of _ ds] exI [of _ es] exI [of _ post])
      (simp add: k sub_match_str_def)
qed

lemma digit_not_space: "is_digit c \<Longrightarrow> \<not> isspace c \<and> c \<noteq> CHR ''-'' \<and> c \<noteq> CHR ''+''"
  by (auto simp: is_digit_def isspace_def)

lemma stoi_digits:
  assumes "ds \<noteq> []" and "list_all is_digit ds"
  shows "stoi ds = (if int (decimal ds) \<le> 2147483647 then Inr (int (decimal ds))
                    else Inl Out_of_range)"
proof -
  obtain c cs where ds: "ds = c # cs" using assms(1) by (cases ds) auto
  have c: "is_digit c" using assms(2) ds by simp
  have 1: "dropWhile isspace ds = ds"
    using digit_not_space [OF c] by (simp add: ds)
  have 2: "takeWhile is_digit ds = ds"
    using assms(2) by (simp add: list_all_iff)
  have 3: "hd ds \<noteq> CHR ''-''" "hd ds \<noteq> CHR ''+''"
    using digit_not_space [OF c] by (simp_all add: ds)
  show ?thesis
    unfolding stoi_def 1 Let_def using 3 assms(1) by (simp add: 2)
qed

lemma first_key_stoi:
  assumes "ecma_search ident filename = Some m"
  shows "stoi (sub_match_str m 1) =
           (if the (first_key ident filename) \<le> 2147483647
            then Inr (the (first_key ident filename)) else Inl Out_of_range)"
proof -
  obtain ds es where
    "m = [ident @ ''_'' @ ds @ ''_R'' @ es, ds]" "ds \<noteq> []" "list_all is_digit ds"
    using ecma_search_shape [OF assms] by blast
  then show ?thesis
    using stoi_digits [of ds] by (simp add: first_key_def assms sub_match_str_def)
qed

lemma extract_loop_ecma:
  "extract_loop (ecma_search ident) filenames S =
     (if \<forall>filename \<in> set filenames. \<forall>k. first_key ident filename = Some k \<longrightarrow> k \<le> 2147483647
      then Inr (S \<union> {k. \<exists>filename \<in> set filenames. first_key ident filename = Some k})
      else Inl Out_of_range)"
proof (induction filenames arbitrary: S)
  case Nil
  then show ?case by simp
next
  case (Cons filename filenames)
  show ?case
  proof (cases "ecma_search ident filename")
    case None
    then have "first_key ident filename = None"
      by (simp add: first_key_def)
    then show ?thesis
      using None Cons.IH [of S] by simp
  next
    case (Some m)
    then obtain k where k: "first_key ident filename = Some k"
      by (simp add: first_key_def)
    have st: "stoi (sub_match_str m 1) = (if k \<le> 2147483647 then Inr k else Inl Out_of_range)"
      using first_key_stoi [OF Some] k by simp
    show ?thesis
    proof (cases "k \<le> 2147483647")
      case True
      have "insert k S \<union> {k. \<exists>filename \<in> set filenames. first_key ident filename = Some k} =
            S \<union> {k'. \<exists>f \<in> set (filename # filenames). first_key ident f = Some k'}"
        using k by auto
      then show ?thesis
        using Some st True k Cons.IH [of "insert k S"] by simp
    next
      case False
      then show ?thesis
        using Some st k by auto
    qed
  qed
qed

lemma ecma_regex_literal:
  assumes "regex_literal ident"
  shows "ecma_regex (ident @ rpm_pattern_suffix) = Some (ecma_search ident)"
  using assms by (simp add: ecma_regex_def Let_def)

lemma finite_first_keys:
  "finite {k. \<exists>filename \<in> set filenames. first_key ident filename = Some k}"
proof -
  have "{k. \<exists>filename \<in> set filenames. first_key ident filename = Some k} \<subseteq>
        (\<lambda>filename. the (first_key ident filename)) ` set filenames"
    by force
  then show ?thesis
    by (rule finite_subset) simp
qed

lemma extractUniqueRPMs_ecma:
  assumes "regex_literal ident"
  shows "extractUniqueRPMs ecma_regex filenames ident =
     (if \<forall>filename \<in> set filenames. \<forall>k. first_key ident filename = Some k \<longrightarrow> k \<le> 2147483647
      then Inr (sorted_list_of_set
                  {k. \<exists>filename \<in> set filenames. first_key ident filename = Some k})
      else Inl Out_of_range)"
  by (simp add: extractUniqueRPMs_def ecma_regex_literal [OF assms] extract_loop_ecma)

lemma processed_keys_append:
  "processed_keys (xs @ ys) = processed_keys xs @ processed_keys ys"
  by (induction xs rule: processed_keys.induct) simp_all

lemma processed_keys_loading:
  "processed_keys (concat (map (load_events w folderPath) fs)) = []"
  by (induction fs) (simp_all add: processed_keys_append load_events_def)

lemma processed_keys_save_loop:
  "processed_keys (save_loop w alignedImagesPath ident rpm images i) = []"
  by (induction images arbitrary: i) (simp_all add: Let_def)

lemma processed_keys_processRPMImages:
  "processed_keys (fst (processRPMImages w filenames folderPath rpm outputFolder ident
                          distanceUpper distanceLower channelChoice blurRadius)) = [rpm]"
  by (simp add: processRPMImages_def load_loop_spec Let_def processed_keys_append
      processed_keys_loading processed_keys_save_loop split: sum.splits)

lemma processed_keys_process_loop:
  "\<exists>rest. processed_keys (fst (process_loop w filenames cfg uniqueRPMs)) @ rest = uniqueRPMs \<and>
          (snd (process_loop w filenames cfg uniqueRPMs) = None \<longrightarrow> rest = [])"
proof (induction uniqueRPMs)
  case Nil
  then show ?case by simp
next
  case (Cons rpm uniqueRPMs)
  let ?p = "processRPMImages w filenames (cfg_folderPath cfg) rpm (cfg_outputFolder cfg)
             (cfg_identifier cfg) (cfg_distanceUpper cfg) (cfg_distanceLower cfg)
             (cfg_channelChoice cfg) (cfg_blurRadius cfg)"
  obtain ev r where p: "?p = (ev, r)"
    by (cases ?p) auto
  obtain ev' r' where q: "process_loop w filenames cfg uniqueRPMs = (ev', r')"
    by (cases "process_loop w filenames cfg uniqueRPMs") auto
  have k: "processed_keys ev = [rpm]"
    using processed_keys_processRPMImages [of w filenames "cfg_folderPath cfg" rpm
        "cfg_outputFolder cfg" "cfg_identifier cfg" "cfg_distanceUpper cfg"
        "cfg_distanceLower cfg" "cfg_channelChoice cfg" "cfg_blurRadius cfg"]
    by (simp add: p)
  obtain rest where rest: "processed_keys ev' @ rest = uniqueRPMs" "r' = None \<longrightarrow> rest = []"
    using Cons.IH by (auto simp: q)
  show ?case
  proof (cases r)
    case None
    then show ?thesis
      using rest by (intro exI [of _ rest]) (auto simp: p q k processed_keys_append)
  next
    case (Some e)
    then show ?thesis
      by (simp add: p k)
  qed
qed

lemma validate_loop_no_keys:
  "processed_keys (fst (validate_loop filenames uniqueRPMs ident)) = []"
  by (induction uniqueRPMs) simp_all

lemma processed_keys_main_run:
  assumes "getFilenames w (cfg_folderPath cfg) = Inr filenames"
    and "extractUniqueRPMs (std_regex w) filenames (cfg_identifier cfg) = Inr uniqueRPMs"
  shows "\<exists>rest. processed_keys (fst (main_run w cfg)) @ rest = uniqueRPMs \<and>
               (snd (main_run w cfg) = Returned 0 \<longrightarrow> rest = [])"
proof -
  obtain errors ok where v: "validateReplicates filenames uniqueRPMs (cfg_identifier cfg) = (errors, ok)"
    by (cases "validateReplicates filenames uniqueRPMs (cfg_identifier cfg)") auto
  have e: "processed_keys errors = []"
    using validate_loop_no_keys [of filenames uniqueRPMs "cfg_identifier cfg"] v
    by (simp add: validateReplicates_def)
  obtain events result where p: "process_loop w filenames cfg uniqueRPMs = (events, result)"
    by (cases "process_loop w filenames cfg uniqueRPMs") auto
  obtain rest where r: "processed_keys events @ rest = uniqueRPMs" "result = None \<longrightarrow> rest = []"
    using processed_keys_process_loop [of w filenames cfg uniqueRPMs] p by auto
  show ?thesis
  proof (cases ok)
    case False
    then show ?thesis
      by (simp add: main_run_def assms v e)
  next
    case True
    show ?thesis
    proof (cases result)
      case None
      then show ?thesis
        using r by (auto simp: main_run_def assms v True p e processed_keys_append)
    next
      case (Some err)
      then show ?thesis
        using r by (auto simp: main_run_def assms v True p e processed_keys_append)
    qed
  qed
qed

text \<open>
  Claim C6 says that a key \<open>k\<close> is returned if and only if some file name contains a substring
  matching \<^verbatim>\<open><identifier>_<k>_R<digits>\<close>. \<^verbatim>\<open>std::regex_search\<close> reports one match per file
  name, the leftmost: a name with two such substrings gives its first key only. Here the
  only name has the keys 1 and 2, and the classifier returns 1 alone.
\<close>

theorem classifier_iff_counterexample:
  "regex_literal ''W'' \<and>
   extractUniqueRPMs ecma_regex [''W_1_R1W_2_R1''] ''W'' = Inr [1] \<and>
   contains_key_pattern ''W'' 2 ''W_1_R1W_2_R1'' \<and>
   (2::int) \<notin> set [1]"
proof -
  have 1: "regex_literal ''W''" by code_simp
  have 2: "extractUniqueRPMs ecma_regex [''W_1_R1W_2_R1''] ''W'' = Inr [1]" by code_simp
  have d: "decimal ''2'' = 2" by code_simp
  have "''W_1_R1W_2_R1'' = ''W_1_R1'' @ ''W'' @ ''_'' @ ''2'' @ ''_R'' @ ''1'' @ []"
    by simp
  moreover have "list_all is_digit ''2''" "list_all is_digit ''1''"
    by (simp_all add: is_digit_def)
  ultimately have 3: "contains_key_pattern ''W'' 2 ''W_1_R1W_2_R1''"
    unfolding contains_key_pattern_def
    by (intro exI [of _ "''W_1_R1''"] exI [of _ "''2''"] exI [of _ "''1''"] exI [of _ "[]"])
      (simp add: d)
  show ?thesis
    using 1 2 3 by simp
qed

text \<open>
  Claim C6, amended. Let the identifier consist of ordinary characters, so that line 17
  builds the pattern the claim describes. If in no file name the number of the leftmost
  match exceeds \<open>INT_MAX\<close>, the classifier returns a list of keys such that: \<open>k\<close> is a key if
  and only if \<open>k\<close> is the number of the leftmost match of some file name; every key occurs in
  some file name in a substring of the shape \<^verbatim>\<open><identifier>_<k>_R<digits>\<close>; the keys are
  strictly ascending, hence without duplicates; and \<^verbatim>\<open>main\<close> starts the groups in the order
  of the list, all of them when it returns 0. If such a number exceeds \<open>INT_MAX\<close>,
  \<^verbatim>\<open>std::stoi\<close> throws \<^verbatim>\<open>std::out_of_range\<close> and the classifier returns nothing.
\<close>

theorem classifier_keys_of_leftmost_matches:
  assumes "regex_literal ident" and "std_regex w = ecma_regex"
  shows "((\<forall>filename \<in> set filenames. \<forall>k. first_key ident filename = Some k \<longrightarrow> k \<le> 2147483647) \<longrightarrow>
            (\<exists>keys. extractUniqueRPMs (std_regex w) filenames ident = Inr keys \<and>
               (\<forall>k. k \<in> set keys \<longleftrightarrow>
                      (\<exists>filename \<in> set filenames. first_key ident filename = Some k)) \<and>
               (\<forall>k \<in> set keys. \<exists>filename \<in> set filenames. contains_key_pattern ident k filename) \<and>
               sorted_wrt (<) keys \<and>
               (getFilenames w (cfg_folderPath cfg) = Inr filenames \<and> cfg_identifier cfg = ident \<longrightarrow>
                  (\<exists>rest. processed_keys (fst (main_run w cfg)) @ rest = keys \<and>
                          (snd (main_run w cfg) = Returned 0 \<longrightarrow> rest = []))))) \<and>
         (\<not> (\<forall>filename \<in> set filenames. \<forall>k. first_key ident filename = Some k \<longrightarrow> k \<le> 2147483647) \<longrightarrow>
            extractUniqueRPMs (std_regex w) filenames ident = Inl Out_of_range)"
proof (intro conjI impI)
  assume "\<not> (\<forall>filename \<in> set filenames. \<forall>k. first_key ident filename = Some k \<longrightarrow> k \<le> 2147483647)"
  then show "extractUniqueRPMs (std_regex w) filenames ident = Inl Out_of_range"
    unfolding assms(2) extractUniqueRPMs_ecma [OF assms(1)] by (rule if_not_P)
next
  assume b: "\<forall>filename \<in> set filenames. \<forall>k. first_key ident filename = Some k \<longrightarrow> k \<le> 2147483647"
  let ?S = "{k. \<exists>filename \<in> set filenames. first_key ident filename = Some k}"
  let ?keys = "sorted_list_of_set ?S"
  have fin: "finite ?S" by (rule finite_first_keys)
  have x: "extractUniqueRPMs (std_regex w) filenames ident = Inr ?keys"
    unfolding assms(2) extractUniqueRPMs_ecma [OF assms(1)] using b by (rule if_P)
  have mem: "\<forall>k. k \<in> set ?keys \<longleftrightarrow> (\<exists>filename \<in> set filenames. first_key ident filename = Some k)"
    using fin by simp
  have pat: "\<forall>k \<in> set ?keys. \<exists>filename \<in> set filenames. contains_key_pattern ident k filename"
    using mem first_key_contains by blast
  have srt: "sorted_wrt (<) ?keys"
    by (rule strict_sorted_list_of_set)
  have run: "\<exists>rest. processed_keys (fst (main_run w cfg)) @ rest = ?keys \<and>
                          (snd (main_run w cfg) = Returned 0 \<longrightarrow> rest = [])"
    if "getFilenames w (cfg_folderPath cfg) = Inr filenames \<and> cfg_identifier cfg = ident"
    using processed_keys_main_run [of w cfg filenames ?keys] that x by simp
  show "\<exists>keys. extractUniqueRPMs (std_regex w) filenames ident = Inr keys \<and>
               (\<forall>k. k \<in> set keys \<longleftrightarrow>
                      (\<exists>filename \<in> set filenames. first_key ident filename = Some k)) \<and>
               (\<forall>k \<in> set keys. \<exists>filename \<in> set filenames. contains_key_pattern ident k filename) \<and>
               sorted_wrt (<) keys \<and>
               (getFilenames w (cfg_folderPath cfg) = Inr filenames \<and> cfg_identifier cfg = ident \<longrightarrow>
                  (\<exists>rest. processed_keys (fst (main_run w cfg)) @ rest = keys \<and>
                          (snd (main_run w cfg) = Returned 0 \<longrightarrow> rest = [])))"
    using x mem pat srt run by (intro exI [of _ ?keys]) blast
qed

text \<open>
  The theorem at a listing with two names of group 100, one of them written \<^verbatim>\<open>0100\<close>, one
  name of group 200 and one name that does not match.
\<close>

theorem classifier_keys_of_leftmost_matches_witness:
  "\<exists>keys. extractUniqueRPMs ecma_regex
            [''W_200_R1.tif'', ''W_100_R1.tif'', ''readme.txt'', ''W_0100_R3.tif''] ''W'' = Inr keys \<and>
          100 \<in> set keys \<and> 200 \<in> set keys \<and> sorted_wrt (<) keys"
proof -
  let ?names = "[''W_200_R1.tif'', ''W_100_R1.tif'', ''readme.txt'', ''W_0100_R3.tif'']"
  let ?w = "example_world []"
  have 1: "regex_literal ''W''" by code_simp
  have 2: "std_regex ?w = ecma_regex" by (simp add: example_world_def)
  have f: "first_key ''W'' ''W_200_R1.tif'' = Some 200" "first_key ''W'' ''W_100_R1.tif'' = Some 100"
    "first_key ''W'' ''readme.txt'' = None" "first_key ''W'' ''W_0100_R3.tif'' = Some 100"
    by code_simp+
  have 3: "\<forall>filename \<in> set ?names. \<forall>k. first_key ''W'' filename = Some k \<longrightarrow> k \<le> 2147483647"
    by (simp add: f)
  obtain keys where
    x: "extractUniqueRPMs (std_regex ?w) ?names ''W'' = Inr keys"
    and m: "\<forall>k. k \<in> set keys \<longleftrightarrow> (\<exists>filename \<in> set ?names. first_key ''W'' filename = Some k)"
    and s: "sorted_wrt (<) keys"
    using classifier_keys_of_leftmost_matches [OF 1 2, of ?names] 3 by blast
  have "100 \<in> set keys" "200 \<in> set keys"
    by (simp_all add: m f)
  then show ?thesis
    using x s unfolding 2 by blast
qed

end
